theory Spec2Isabelle
  imports Complex_Main
begin

section \<open>The sender hook of alt-sendme as an event-driven state machine\<close>

text \<open>
  The theory embeds \<^verbatim>\<open>useSender\<close> (the second document of
  \<^verbatim>\<open>src/web-app/src/components/sender/Sender.tsx\<close>): the React state of the hook, its
  refs, the three Tauri event listeners, the commands \<^verbatim>\<open>handleFileSelect\<close>,
  \<^verbatim>\<open>startSharing\<close>, \<^verbatim>\<open>stopSharing\<close>, the timers armed with \<^verbatim>\<open>setTimeout\<close> and the
  continuations that wait for an \<^verbatim>\<open>invoke\<close>.

  Conventions of the embedding.
  \<^item> JavaScript is single-threaded: a listener, a timer callback or the part of an
    \<^verbatim>\<open>async\<close> function between two \<^verbatim>\<open>await\<close>s runs to completion. Each is one
    \<^emph>\<open>trigger\<close>, and \<open>step\<close> maps a trigger and a state to the next state.
  \<^item> React renders and runs the three ref-syncing effects before the next trigger is
    handled (\<open>render_effects\<close>), so a command called by the user reads the state of
    the latest render in its closure.
  \<^item> An updater passed to \<^verbatim>\<open>setSenderStatus\<close> is applied to the current status at the
    place it is written, which is what the listeners rely on when they read
    \<^verbatim>\<open>currentState\<close> right after the call.
  \<^item> A JavaScript number is an exact rational or \<^verbatim>\<open>NaN\<close> (\<open>None\<close>): the rounding of
    IEEE doubles is abstracted, so \<^verbatim>\<open>parseInt\<close> is exact on long digit strings too.
  \<^item> \<^verbatim>\<open>Date.now()\<close> is the clock \<open>now\<close> of the state; only the trigger \<open>Elapse\<close>
    advances it, and it fires the timers that fall due, earliest first.
  \<^item> \<^verbatim>\<open>copyTicket\<close>, \<^verbatim>\<open>closeAlert\<close> and the unmount clean-up are left out: they touch
    \<^verbatim>\<open>copySuccess\<close> and the alert dialog only, or end the life of the hook.
\<close>

subsection \<open>Data\<close>

datatype SenderStatus =
  IDLE | FILE_SELECTED | WAITING_FOR_RECEIVER | TRANSFERRING | TRANSFER_COMPLETE | TRANSFER_STOPPED

record TransferProgress =
  bytesTransferred :: "int option"
  totalBytes :: "int option"
  speedBps :: "rat option"
  percentage :: "rat option"

text \<open>\<open>wasStopped\<close> is \<open>None\<close> where the object literal has no such property.\<close>

record TransferMetadata =
  fileName :: string
  fileSize :: int
  duration :: int
  startTime :: int
  endTime :: int
  wasStopped :: "bool option"

record AlertDialogState =
  isOpen :: bool
  title :: string
  description :: string
  alertType :: string

datatype timer_action =
    SetTransferProgress TransferProgress
  | CommitComplete
  | CommitStopped
  | FailedDecay
  | StopDecay

record timer =
  due :: int
  handle :: nat
  callback :: timer_action

text \<open>What the completion listener holds across \<^verbatim>\<open>await invoke('get_file_size')\<close>.\<close>

record file_size_call =
  fs_path :: string
  fs_startTime :: "int option"
  fs_endTime :: int
  fs_duration :: int

record sender =
  senderStatus :: SenderStatus
  ticket :: "string option"
  selectedPath :: "string option"
  pathType :: "string option"
  isLoading :: bool
  transferMetadata :: "TransferMetadata option"
  transferProgress :: "TransferProgress option"
  transferStartTime :: "int option"
  wasManuallyStoppedRef :: bool
  alertDialog :: AlertDialogState
  transferStartTimeRef :: "int option"
  selectedPathRef :: "string option"
  lastProgressRef :: "TransferProgress option"
  progressUpdateTimeout :: "nat option"
  timers :: "timer list"
  nextTimerId :: nat
  now :: int
  pendingCheckPathType :: nat
  pendingStartSharing :: nat
  pendingStopWaiting :: nat
  pendingStopTransferring :: nat
  pendingGetFileSize :: "file_size_call list"

datatype payload = StringPayload string | OtherPayload

datatype trigger =
    TransferProgressEvent payload
  | TransferCompletedEvent
  | TransferFailedEvent
  | GetFileSizeResolved nat int
  | GetFileSizeRejected nat
  | HandleFileSelect string
  | CheckPathTypeResolved string
  | CheckPathTypeRejected
  | StartSharing
  | StartSharingResolved string
  | StartSharingRejected string
  | StopSharing
  | StopWaitingResolved
  | StopWaitingRejected string
  | StopTransferringResolved
  | StopTransferringRejected string
  | Elapse nat

definition initial :: "int \<Rightarrow> sender" where
  "initial t0 =
     \<lparr> senderStatus = IDLE, ticket = None, selectedPath = None, pathType = None,
       isLoading = False, transferMetadata = None, transferProgress = None,
       transferStartTime = None, wasManuallyStoppedRef = False,
       alertDialog = \<lparr> isOpen = False, title = [], description = [], alertType = ''info'' \<rparr>,
       transferStartTimeRef = None, selectedPathRef = None, lastProgressRef = None,
       progressUpdateTimeout = None, timers = [], nextTimerId = 1, now = t0,
       pendingCheckPathType = 0, pendingStartSharing = 0, pendingStopWaiting = 0,
       pendingStopTransferring = 0, pendingGetFileSize = [] \<rparr>"

subsection \<open>JavaScript helpers\<close>

text \<open>\<^verbatim>\<open>s.split(c)\<close> for a one-character separator: never the empty list.\<close>

fun split_on :: "char \<Rightarrow> string \<Rightarrow> string list" where
  "split_on c [] = [[]]"
| "split_on c (x # xs) =
     (if x = c then [] # split_on c xs
      else (case split_on c xs of
              [] \<Rightarrow> [[x]]
            | p # ps \<Rightarrow> (x # p) # ps))"

definition js_whitespace :: "char \<Rightarrow> bool" where
  "js_whitespace c = ((of_char c :: nat) \<in> {9, 10, 11, 12, 13, 32, 160})"

definition is_digit :: "char \<Rightarrow> bool" where
  "is_digit c = (48 \<le> (of_char c :: nat) \<and> (of_char c :: nat) \<le> 57)"

definition digit_value :: "char \<Rightarrow> int" where
  "digit_value c = int (of_char c) - 48"

text \<open>
  \<^verbatim>\<open>parseInt(s, 10)\<close>: leading white space is skipped, one sign is read, then the
  longest run of decimal digits; no digit gives \<^verbatim>\<open>NaN\<close>. What follows the digits is
  ignored.
\<close>

definition parseInt10 :: "string \<Rightarrow> int option" where
  "parseInt10 s =
     (let t = dropWhile js_whitespace s;
          neg = (t \<noteq> [] \<and> hd t = CHR ''-'');
          u = (if t \<noteq> [] \<and> (hd t = CHR ''-'' \<or> hd t = CHR ''+'') then tl t else t);
          ds = takeWhile is_digit u
      in if ds = [] then None
         else Some ((if neg then - 1 else 1) * foldl (\<lambda>a c. a * 10 + digit_value c) 0 ds))"

text \<open>Truthiness of \<^verbatim>\<open>string | null\<close> and of \<^verbatim>\<open>number | null\<close>.\<close>

definition truthy_string :: "string option \<Rightarrow> bool" where
  "truthy_string p = (case p of None \<Rightarrow> False | Some x \<Rightarrow> x \<noteq> [])"

definition truthy_number :: "int option \<Rightarrow> bool" where
  "truthy_number n = (case n of None \<Rightarrow> False | Some x \<Rightarrow> x \<noteq> 0)"

text \<open>\<^verbatim>\<open>startTime || endTime\<close>\<close>

definition or_else :: "int option \<Rightarrow> int \<Rightarrow> int" where
  "or_else n d = (if truthy_number n then the n else d)"

text \<open>\<^verbatim>\<open>startTime ? endTime - startTime : 0\<close>\<close>

definition elapsed :: "int option \<Rightarrow> int \<Rightarrow> int" where
  "elapsed n e = (if truthy_number n then e - the n else 0)"

text \<open>\<^verbatim>\<open>path?.split('/').pop() || 'Unknown'\<close>\<close>

definition base_name :: "string option \<Rightarrow> string" where
  "base_name p =
     (case p of
        None \<Rightarrow> ''Unknown''
      | Some path \<Rightarrow>
          (let l = last (split_on CHR ''/'' path) in if l = [] then ''Unknown'' else l))"

text \<open>\<^verbatim>\<open>totalBytes > 0\<close>, false for \<^verbatim>\<open>NaN\<close>.\<close>

definition positive :: "int option \<Rightarrow> bool" where
  "positive n = (case n of None \<Rightarrow> False | Some x \<Rightarrow> 0 < x)"

subsection \<open>Timers\<close>

definition setTimeout :: "timer_action \<Rightarrow> int \<Rightarrow> sender \<Rightarrow> sender" where
  "setTimeout cb delay s =
     s\<lparr> timers := timers s @ [\<lparr> due = now s + delay, handle = nextTimerId s, callback = cb \<rparr>],
        nextTimerId := Suc (nextTimerId s) \<rparr>"

definition clearTimeout :: "nat \<Rightarrow> sender \<Rightarrow> sender" where
  "clearTimeout h s = s\<lparr> timers := filter (\<lambda>t. handle t \<noteq> h) (timers s) \<rparr>"

text \<open>\<^verbatim>\<open>if (progressUpdateTimeout) { clearTimeout(progressUpdateTimeout) }\<close>\<close>

definition clear_progress_timeout :: "sender \<Rightarrow> sender" where
  "clear_progress_timeout s =
     (case progressUpdateTimeout s of None \<Rightarrow> s | Some h \<Rightarrow> clearTimeout h s)"

text \<open>
  The state resets that \<^verbatim>\<open>stopSharing\<close> writes three times (to IDLE, with ticket,
  selection, path type, progress, start time and metadata set to null and the manual-stop
  flag to false).
\<close>

definition reset_to_idle :: "sender \<Rightarrow> sender" where
  "reset_to_idle s =
     s\<lparr> senderStatus := IDLE, ticket := None, selectedPath := None, pathType := None,
        transferProgress := None, transferStartTime := None, transferMetadata := None,
        wasManuallyStoppedRef := False \<rparr>"

text \<open>
  The callbacks given to \<^verbatim>\<open>setTimeout\<close>. The object a progress timer stores is a new
  one, so the effect on \<^verbatim>\<open>[transferProgress]\<close> always runs after it and copies it to
  \<^verbatim>\<open>lastProgressRef\<close>.
\<close>

fun run_callback :: "timer_action \<Rightarrow> sender \<Rightarrow> sender" where
  "run_callback (SetTransferProgress pd) s =
     s\<lparr> transferProgress := Some pd, lastProgressRef := Some pd \<rparr>"
| "run_callback CommitComplete s = s\<lparr> senderStatus := TRANSFER_COMPLETE \<rparr>"
| "run_callback CommitStopped s = s\<lparr> senderStatus := TRANSFER_STOPPED \<rparr>"
| "run_callback FailedDecay s = s\<lparr> senderStatus := IDLE, transferMetadata := None \<rparr>"
| "run_callback StopDecay s = reset_to_idle s"

subsection \<open>The effects that copy state into refs\<close>

text \<open>
  Each \<^verbatim>\<open>useEffect(() => { ref.current = value }, [value])\<close> runs after a render in
  which \<^verbatim>\<open>value\<close> changed.
\<close>

definition render_effects :: "sender \<Rightarrow> sender \<Rightarrow> sender" where
  "render_effects old new =
     new\<lparr> transferStartTimeRef :=
            (if transferStartTime new \<noteq> transferStartTime old then transferStartTime new
             else transferStartTimeRef new),
          selectedPathRef :=
            (if selectedPath new \<noteq> selectedPath old then selectedPath new
             else selectedPathRef new),
          lastProgressRef :=
            (if transferProgress new \<noteq> transferProgress old then transferProgress new
             else lastProgressRef new) \<rparr>"

subsection \<open>The transfer-progress listener\<close>

definition progress_data :: "string list \<Rightarrow> TransferProgress" where
  "progress_data parts =
     (let bytes = parseInt10 (parts ! 0);
          total = parseInt10 (parts ! 1);
          speedInt = parseInt10 (parts ! 2)
      in \<lparr> bytesTransferred = bytes,
           totalBytes = total,
           speedBps = map_option (\<lambda>n. of_int n / 1000) speedInt,
           percentage =
             (if positive total
              then (case bytes of
                      None \<Rightarrow> None
                    | Some b \<Rightarrow> Some (of_int b / of_int (the total) * 100))
              else Some 0) \<rparr>)"

definition first_progress :: "TransferProgress \<Rightarrow> sender \<Rightarrow> sender" where
  "first_progress pd s =
     (if senderStatus s = WAITING_FOR_RECEIVER \<and> positive (totalBytes pd)
      then s\<lparr> transferStartTime := Some (now s), transferProgress := None,
              transferMetadata := None, wasManuallyStoppedRef := False,
              senderStatus := TRANSFERRING \<rparr>
      else s)"

definition arm_progress_timeout :: "TransferProgress \<Rightarrow> sender \<Rightarrow> sender" where
  "arm_progress_timeout pd s =
     (setTimeout (SetTransferProgress pd) 100 s)\<lparr> progressUpdateTimeout := Some (nextTimerId s) \<rparr>"

definition transfer_progress_listener :: "payload \<Rightarrow> sender \<Rightarrow> sender" where
  "transfer_progress_listener p s =
     (case p of
        OtherPayload \<Rightarrow> s
      | StringPayload str \<Rightarrow>
          (let parts = split_on CHR '':'' str
           in if length parts = 3
              then (let pd = progress_data parts
                    in arm_progress_timeout pd
                         (clear_progress_timeout
                            (first_progress pd (s\<lparr> lastProgressRef := Some pd \<rparr>))))
              else s))"

subsection \<open>The transfer-completed listener\<close>

definition commit_complete :: "TransferMetadata \<Rightarrow> sender \<Rightarrow> sender" where
  "commit_complete m s = setTimeout CommitComplete 0 (s\<lparr> transferMetadata := Some m \<rparr>)"

definition transfer_completed_listener :: "sender \<Rightarrow> sender" where
  "transfer_completed_listener s =
     (if wasManuallyStoppedRef s then s
      else if senderStatus s \<noteq> TRANSFERRING then s
      else (let s1 = (clear_progress_timeout s)\<lparr> transferProgress := None \<rparr>;
                endT = now s;
                startT = transferStartTimeRef s;
                path = selectedPathRef s;
                dur = elapsed startT endT
            in if truthy_string path
               then s1\<lparr> pendingGetFileSize := pendingGetFileSize s1 @
                          [\<lparr> fs_path = the path, fs_startTime = startT,
                             fs_endTime = endT, fs_duration = dur \<rparr>] \<rparr>
               else commit_complete
                      \<lparr> fileName = ''Unknown'', fileSize = 0, duration = dur,
                        startTime = or_else startT endT, endTime = endT,
                        wasStopped = None \<rparr> s1))"

text \<open>
  The continuation after \<^verbatim>\<open>await invoke('get_file_size')\<close>: \<open>sz = None\<close> is the
  \<^verbatim>\<open>catch\<close> branch.
\<close>

definition get_file_size_continuation :: "nat \<Rightarrow> int option \<Rightarrow> sender \<Rightarrow> sender" where
  "get_file_size_continuation i sz s =
     (if i < length (pendingGetFileSize s)
      then (let c = pendingGetFileSize s ! i;
                s1 = s\<lparr> pendingGetFileSize :=
                          take i (pendingGetFileSize s) @ drop (Suc i) (pendingGetFileSize s) \<rparr>
            in commit_complete
                 \<lparr> fileName = base_name (Some (fs_path c)),
                   fileSize = (case sz of None \<Rightarrow> 0 | Some n \<Rightarrow> n),
                   duration = fs_duration c,
                   startTime = or_else (fs_startTime c) (fs_endTime c),
                   endTime = fs_endTime c,
                   wasStopped = None \<rparr> s1)
      else s)"

subsection \<open>The transfer-failed listener\<close>

definition transfer_failed_listener :: "sender \<Rightarrow> sender" where
  "transfer_failed_listener s =
     (if wasManuallyStoppedRef s then s
      else (let s1 = (clear_progress_timeout s)\<lparr> transferProgress := None \<rparr>;
                endT = now s;
                startT = transferStartTimeRef s;
                path = selectedPathRef s;
                metadata = \<lparr> fileName = base_name path, fileSize = 0,
                             duration = elapsed startT endT,
                             startTime = or_else startT endT, endTime = endT,
                             wasStopped = Some True \<rparr>
            in setTimeout FailedDecay 2000
                 (setTimeout CommitStopped 0 (s1\<lparr> transferMetadata := Some metadata \<rparr>))))"

subsection \<open>The commands\<close>

definition showAlert :: "string \<Rightarrow> string \<Rightarrow> string \<Rightarrow> sender \<Rightarrow> sender" where
  "showAlert t d ty s =
     s\<lparr> alertDialog := \<lparr> isOpen = True, title = t, description = d, alertType = ty \<rparr> \<rparr>"

definition handleFileSelect :: "string \<Rightarrow> sender \<Rightarrow> sender" where
  "handleFileSelect path s =
     s\<lparr> selectedPath := Some path, pendingCheckPathType := Suc (pendingCheckPathType s) \<rparr>"

text \<open>The continuation after \<^verbatim>\<open>await invoke('check_path_type')\<close>.\<close>

definition check_path_type_continuation :: "string option \<Rightarrow> sender \<Rightarrow> sender" where
  "check_path_type_continuation r s =
     (if pendingCheckPathType s = 0 then s
      else (let s1 = s\<lparr> pendingCheckPathType := pendingCheckPathType s - 1 \<rparr>
            in case r of
                 Some ty \<Rightarrow> s1\<lparr> pathType := Some ty, senderStatus := FILE_SELECTED \<rparr>
               | None \<Rightarrow> s1\<lparr> pathType := None \<rparr>))"

definition startSharing :: "sender \<Rightarrow> sender" where
  "startSharing s =
     (if \<not> truthy_string (selectedPath s) then s
      else s\<lparr> isLoading := True, pendingStartSharing := Suc (pendingStartSharing s) \<rparr>)"

text \<open>
  The continuation after \<^verbatim>\<open>await invoke('start_sharing')\<close>: \<open>Inr\<close> the ticket, \<open>Inl\<close> the
  error of the \<^verbatim>\<open>catch\<close> branch; \<^verbatim>\<open>finally\<close> clears \<^verbatim>\<open>isLoading\<close>.
\<close>

definition start_sharing_continuation :: "string + string \<Rightarrow> sender \<Rightarrow> sender" where
  "start_sharing_continuation r s =
     (if pendingStartSharing s = 0 then s
      else (let s1 = s\<lparr> pendingStartSharing := pendingStartSharing s - 1 \<rparr>
            in (case r of
                  Inr result \<Rightarrow> s1\<lparr> ticket := Some result, senderStatus := WAITING_FOR_RECEIVER \<rparr>
                | Inl err \<Rightarrow>
                    showAlert ''Sharing Failed'' (''Failed to start sharing: '' @ err) ''error'' s1)
               \<lparr> isLoading := False \<rparr>))"

definition stopped_metadata :: "sender \<Rightarrow> TransferMetadata" where
  "stopped_metadata s =
     \<lparr> fileName = base_name (selectedPath s), fileSize = 0, duration = 0,
       startTime = or_else (transferStartTime s) (now s), endTime = now s,
       wasStopped = Some True \<rparr>"

definition stopSharing :: "sender \<Rightarrow> sender" where
  "stopSharing s =
     (if senderStatus s = WAITING_FOR_RECEIVER
      then s\<lparr> pendingStopWaiting := Suc (pendingStopWaiting s) \<rparr>
      else if senderStatus s = TRANSFERRING
      then s\<lparr> wasManuallyStoppedRef := True,
              transferMetadata := Some (stopped_metadata s),
              senderStatus := TRANSFER_STOPPED,
              pendingStopTransferring := Suc (pendingStopTransferring s) \<rparr>
      else if senderStatus s = TRANSFER_COMPLETE \<or> senderStatus s = TRANSFER_STOPPED
      then reset_to_idle (s\<lparr> wasManuallyStoppedRef := False \<rparr>)
      else s)"

text \<open>
  The continuations after \<^verbatim>\<open>await invoke('stop_sharing')\<close> in the two branches that
  wait for it: \<open>None\<close> is success, \<open>Some err\<close> the \<^verbatim>\<open>catch\<close> branch.
\<close>

definition stop_waiting_continuation :: "string option \<Rightarrow> sender \<Rightarrow> sender" where
  "stop_waiting_continuation r s =
     (if pendingStopWaiting s = 0 then s
      else (let s1 = s\<lparr> pendingStopWaiting := pendingStopWaiting s - 1 \<rparr>
            in case r of
                 None \<Rightarrow> reset_to_idle s1
               | Some err \<Rightarrow>
                   showAlert ''Stop Sharing Failed'' (''Failed to stop sharing: '' @ err) ''error'' s1))"

definition stop_transferring_continuation :: "string option \<Rightarrow> sender \<Rightarrow> sender" where
  "stop_transferring_continuation r s =
     (if pendingStopTransferring s = 0 then s
      else (let s1 = s\<lparr> pendingStopTransferring := pendingStopTransferring s - 1 \<rparr>
            in case r of
                 None \<Rightarrow> setTimeout StopDecay 2000 s1
               | Some err \<Rightarrow>
                   showAlert ''Stop Sharing Failed'' (''Failed to stop sharing: '' @ err) ''error'' s1))"

subsection \<open>Time and the step function\<close>

definition fire :: "sender \<Rightarrow> timer \<Rightarrow> sender" where
  "fire s t = render_effects s (run_callback (callback t) s)"

text \<open>
  \<open>d\<close> milliseconds pass: the timers due by then leave the table and their callbacks
  run, earliest first, in the order of arming among equal times.
\<close>

definition elapse :: "nat \<Rightarrow> sender \<Rightarrow> sender" where
  "elapse d s =
     (let t' = now s + int d;
          ready = sort_key due (filter (\<lambda>t. due t \<le> t') (timers s));
          s1 = s\<lparr> timers := filter (\<lambda>t. \<not> due t \<le> t') (timers s) \<rparr>
      in (foldl fire s1 ready)\<lparr> now := t' \<rparr>)"

fun handle_trigger :: "trigger \<Rightarrow> sender \<Rightarrow> sender" where
  "handle_trigger (TransferProgressEvent p) s = transfer_progress_listener p s"
| "handle_trigger TransferCompletedEvent s = transfer_completed_listener s"
| "handle_trigger TransferFailedEvent s = transfer_failed_listener s"
| "handle_trigger (GetFileSizeResolved i n) s = get_file_size_continuation i (Some n) s"
| "handle_trigger (GetFileSizeRejected i) s = get_file_size_continuation i None s"
| "handle_trigger (HandleFileSelect path) s = handleFileSelect path s"
| "handle_trigger (CheckPathTypeResolved ty) s = check_path_type_continuation (Some ty) s"
| "handle_trigger CheckPathTypeRejected s = check_path_type_continuation None s"
| "handle_trigger StartSharing s = startSharing s"
| "handle_trigger (StartSharingResolved result) s = start_sharing_continuation (Inr result) s"
| "handle_trigger (StartSharingRejected err) s = start_sharing_continuation (Inl err) s"
| "handle_trigger StopSharing s = stopSharing s"
| "handle_trigger StopWaitingResolved s = stop_waiting_continuation None s"
| "handle_trigger (StopWaitingRejected err) s = stop_waiting_continuation (Some err) s"
| "handle_trigger StopTransferringResolved s = stop_transferring_continuation None s"
| "handle_trigger (StopTransferringRejected err) s = stop_transferring_continuation (Some err) s"
| "handle_trigger (Elapse d) s = s"

definition step :: "sender \<Rightarrow> trigger \<Rightarrow> sender" where
  "step s ev =
     (case ev of
        Elapse d \<Rightarrow> elapse d s
      | _ \<Rightarrow> render_effects s (handle_trigger ev s))"

definition run :: "sender \<Rightarrow> trigger list \<Rightarrow> sender" where
  "run s evs = foldl step s evs"

subsection \<open>Notions used in the statements\<close>

text \<open>
  A completion is under way: a \<^verbatim>\<open>get_file_size\<close> lookup of the completion listener
  is in flight, its zero-delay timer is armed, or the status is TRANSFER_COMPLETE.
\<close>

definition completing :: "sender \<Rightarrow> bool" where
  "completing s =
     (pendingGetFileSize s \<noteq> [] \<or> (\<exists>t \<in> set (timers s). callback t = CommitComplete)
      \<or> senderStatus s = TRANSFER_COMPLETE)"

text \<open>
  Somewhere along the triggers, run from \<open>s\<close>, a completed notification arrives while
  the status is TRANSFERRING and the manual-stop flag is false.
\<close>

fun accepted_completion :: "sender \<Rightarrow> trigger list \<Rightarrow> bool" where
  "accepted_completion s [] = False"
| "accepted_completion s (ev # evs) =
     ((ev = TransferCompletedEvent \<and> senderStatus s = TRANSFERRING \<and> \<not> wasManuallyStoppedRef s)
      \<or> accepted_completion (step s ev) evs)"




text \<open>Everything that \<^verbatim>\<open>stopSharing\<close> sets to null, and the flag, are clear in IDLE.\<close>

definition cleared :: "sender \<Rightarrow> bool" where
  "cleared s =
     (senderStatus s = IDLE \<and> ticket s = None \<and> selectedPath s = None \<and> pathType s = None \<and>
      transferProgress s = None \<and> transferStartTime s = None \<and> transferMetadata s = None \<and>
      \<not> wasManuallyStoppedRef s)"

text \<open>While the sender waits or transfers, there is a ticket.\<close>

definition ticket_present_while_sharing :: "sender \<Rightarrow> bool" where
  "ticket_present_while_sharing s =
     (senderStatus s = WAITING_FOR_RECEIVER \<or> senderStatus s = TRANSFERRING \<longrightarrow> ticket s \<noteq> None)"

text \<open>
  The timer table is well formed: every handle in it was given out already, no handle
  occurs twice, and the timers that carry a progress sample are exactly those whose
  handle is the one held in \<^verbatim>\<open>progressUpdateTimeout\<close>.
\<close>

fun is_progress :: "timer_action \<Rightarrow> bool" where
  "is_progress (SetTransferProgress pd) = True"
| "is_progress cb = False"

definition timers_ok :: "sender \<Rightarrow> bool" where
  "timers_ok s =
     ((\<forall>t \<in> set (timers s). handle t < nextTimerId s) \<and>
      distinct (map handle (timers s)) \<and>
      (case progressUpdateTimeout s of None \<Rightarrow> True | Some h \<Rightarrow> h < nextTimerId s) \<and>
      (\<forall>t \<in> set (timers s).
         is_progress (callback t) = (progressUpdateTimeout s = Some (handle t))))"

subsection \<open>Example states and traces\<close>

text \<open>
  A file is selected and classified, sharing starts and the ticket arrives: the sender
  waits for a receiver. Then the first progress sample arrives.
\<close>

definition waiting_example :: sender where
  "waiting_example =
     run (initial 1000)
       [HandleFileSelect ''/tmp/a.bin'', CheckPathTypeResolved ''file'', StartSharing,
        StartSharingResolved ''abc123'']"

definition transferring_example :: sender where
  "transferring_example =
     step waiting_example (TransferProgressEvent (StringPayload ''1024:2048:500000''))"

definition completing_trace :: "trigger list" where
  "completing_trace =
     [HandleFileSelect ''/tmp/a.bin'', CheckPathTypeResolved ''file'', StartSharing,
      StartSharingResolved ''abc123'',
      TransferProgressEvent (StringPayload ''1024:2048:500000''), Elapse 100,
      TransferCompletedEvent, GetFileSizeResolved 0 2048, Elapse 0]"


text \<open>A manual stop during the transfer, acknowledged by the backend.\<close>

definition stopped_example :: sender where
  "stopped_example = run transferring_example [StopSharing, StopTransferringResolved]"

text \<open>The backend reports a failure during the transfer; the two timers of the listener fire.\<close>

definition failed_decay_trace :: "trigger list" where
  "failed_decay_trace =
     [HandleFileSelect ''/tmp/a.bin'', CheckPathTypeResolved ''file'', StartSharing,
      StartSharingResolved ''abc123'',
      TransferProgressEvent (StringPayload ''1024:2048:500000''),
      TransferFailedEvent, Elapse 0, Elapse 2000]"



section \<open>Basic facts\<close>

lemmas helper_defs = setTimeout_def clearTimeout_def clear_progress_timeout_def reset_to_idle_def
  showAlert_def commit_complete_def first_progress_def arm_progress_timeout_def

lemmas handler_defs = transfer_progress_listener_def transfer_completed_listener_def
  get_file_size_continuation_def transfer_failed_listener_def handleFileSelect_def
  check_path_type_continuation_def startSharing_def start_sharing_continuation_def
  stopSharing_def stop_waiting_continuation_def stop_transferring_continuation_def

lemma render_effects_same: "render_effects s s = s"
  by (simp add: render_effects_def)

text \<open>Rendering writes the three refs and nothing else.\<close>

lemma render_effects_fields:
  "senderStatus (render_effects s s') = senderStatus s'"
  "ticket (render_effects s s') = ticket s'"
  "selectedPath (render_effects s s') = selectedPath s'"
  "pathType (render_effects s s') = pathType s'"
  "transferMetadata (render_effects s s') = transferMetadata s'"
  "transferProgress (render_effects s s') = transferProgress s'"
  "transferStartTime (render_effects s s') = transferStartTime s'"
  "wasManuallyStoppedRef (render_effects s s') = wasManuallyStoppedRef s'"
  "alertDialog (render_effects s s') = alertDialog s'"
  "timers (render_effects s s') = timers s'"
  "nextTimerId (render_effects s s') = nextTimerId s'"
  "progressUpdateTimeout (render_effects s s') = progressUpdateTimeout s'"
  "pendingGetFileSize (render_effects s s') = pendingGetFileSize s'"
  "pendingStopWaiting (render_effects s s') = pendingStopWaiting s'"
  "now (render_effects s s') = now s'"
  by (simp_all add: render_effects_def)

lemma step_handle:
  "\<forall>d. ev \<noteq> Elapse d \<Longrightarrow> step s ev = render_effects s (handle_trigger ev s)"
  by (cases ev) (simp_all add: step_def)

lemma step_elapse: "step s (Elapse d) = elapse d s"
  by (simp add: step_def)

lemma step_completed:
  "step s TransferCompletedEvent = render_effects s (transfer_completed_listener s)"
  by (simp add: step_def)


lemma run_Nil: "run s [] = s"
  by (simp add: run_def)

lemma run_Cons: "run s (ev # evs) = run (step s ev) evs"
  by (simp add: run_def)

section \<open>Completed notifications are accepted only while transferring\<close>

lemma fire_completing: "completing (fire s t) \<Longrightarrow> completing s \<or> callback t = CommitComplete"
  by (cases "callback t")
    (auto simp: fire_def completing_def render_effects_fields reset_to_idle_def)

lemma foldl_fire_completing:
  "completing (foldl fire s ts) \<Longrightarrow> completing s \<or> (\<exists>t \<in> set ts. callback t = CommitComplete)"
proof (induction ts arbitrary: s)
  case Nil
  then show ?case by simp
next
  case (Cons t ts)
  from Cons.IH [of "fire s t"] Cons.prems
  have "completing (fire s t) \<or> (\<exists>t \<in> set ts. callback t = CommitComplete)" by simp
  with fire_completing [of s t] show ?case by auto
qed

lemma elapse_completing: "completing (elapse d s) \<Longrightarrow> completing s"
proof -
  assume a: "completing (elapse d s)"
  let ?T = "now s + int d"
  let ?s1 = "s\<lparr> timers := filter (\<lambda>t. \<not> due t \<le> ?T) (timers s) \<rparr>"
  let ?ready = "sort_key due (filter (\<lambda>t. due t \<le> ?T) (timers s))"
  from a have "completing (foldl fire ?s1 ?ready)"
    by (simp add: elapse_def Let_def completing_def)
  then have "completing ?s1 \<or> (\<exists>t \<in> set ?ready. callback t = CommitComplete)"
    by (rule foldl_fire_completing)
  then show ?thesis by (auto simp: completing_def)
qed

lemma handle_completing:
  "completing (handle_trigger ev s) \<Longrightarrow>
   completing s \<or>
   (ev = TransferCompletedEvent \<and> senderStatus s = TRANSFERRING \<and> \<not> wasManuallyStoppedRef s)"
  by (cases ev)
    (auto simp: completing_def handler_defs helper_defs Let_def
      split: if_splits option.splits payload.splits sum.splits
      dest: in_set_takeD in_set_dropD)

lemma render_effects_completing: "completing (render_effects s s') = completing s'"
  by (simp add: completing_def render_effects_fields)

lemma step_completing:
  assumes "completing (step s ev)"
  shows "completing s \<or>
    (ev = TransferCompletedEvent \<and> senderStatus s = TRANSFERRING \<and> \<not> wasManuallyStoppedRef s)"
proof (cases "\<exists>d. ev = Elapse d")
  case True
  then obtain d where "ev = Elapse d" by blast
  with assms show ?thesis using elapse_completing [of d s] by (simp add: step_elapse)
next
  case False
  then have "step s ev = render_effects s (handle_trigger ev s)"
    by (simp add: step_handle)
  with assms show ?thesis
    using handle_completing [of ev s] by (simp add: render_effects_completing)
qed

lemma run_completing:
  "completing (run s evs) \<Longrightarrow> completing s \<or> accepted_completion s evs"
proof (induction evs arbitrary: s)
  case Nil
  then show ?case by (simp add: run_Nil)
next
  case (Cons ev evs)
  from Cons.prems have "completing (run (step s ev) evs)" by (simp add: run_Cons)
  then have "completing (step s ev) \<or> accepted_completion (step s ev) evs" by (rule Cons.IH)
  then show ?case using step_completing [of s ev] by auto
qed

lemma initial_not_completing: "\<not> completing (initial t0)"
  by (simp add: completing_def initial_def)

text \<open>
  Claim C1. A completed notification that arrives while the status is not TRANSFERRING
  leaves the whole state as it is: no transition, no metadata, no timer, no lookup. A
  completed notification changes the state only if the status is TRANSFERRING and the
  manual-stop flag is false. And for every sequence of triggers from the initial state,
  the status is TRANSFER_COMPLETE at the end only if, somewhere along it, a completed
  notification arrived in status TRANSFERRING with the flag false.
\<close>

theorem completed_accepted_only_when_transferring:
  "(senderStatus s \<noteq> TRANSFERRING \<longrightarrow> step s TransferCompletedEvent = s) \<and>
   (step s' TransferCompletedEvent \<noteq> s' \<longrightarrow>
      senderStatus s' = TRANSFERRING \<and> \<not> wasManuallyStoppedRef s') \<and>
   (senderStatus (run (initial t0) evs) = TRANSFER_COMPLETE \<longrightarrow>
      accepted_completion (initial t0) evs)"
proof (intro conjI impI)
  assume "senderStatus s \<noteq> TRANSFERRING"
  then show "step s TransferCompletedEvent = s"
    by (simp add: step_completed transfer_completed_listener_def render_effects_same)
next
  assume "step s' TransferCompletedEvent \<noteq> s'"
  then show "senderStatus s' = TRANSFERRING"
    by (auto simp: step_completed render_effects_same transfer_completed_listener_def
        split: if_splits)
next
  assume "step s' TransferCompletedEvent \<noteq> s'"
  then show "\<not> wasManuallyStoppedRef s'"
    by (auto simp: step_completed render_effects_same transfer_completed_listener_def
        split: if_splits)
next
  assume "senderStatus (run (initial t0) evs) = TRANSFER_COMPLETE"
  then have "completing (run (initial t0) evs)" by (simp add: completing_def)
  then show "accepted_completion (initial t0) evs"
    using run_completing [of "initial t0" evs] initial_not_completing [of t0] by blast
qed

theorem completed_accepted_only_when_transferring_witness:
  "senderStatus waiting_example \<noteq> TRANSFERRING \<and>
   step waiting_example TransferCompletedEvent = waiting_example \<and>
   step transferring_example TransferCompletedEvent \<noteq> transferring_example \<and>
   senderStatus transferring_example = TRANSFERRING \<and>
   \<not> wasManuallyStoppedRef transferring_example \<and>
   senderStatus (run (initial 1000) completing_trace) = TRANSFER_COMPLETE \<and>
   accepted_completion (initial 1000) completing_trace"
proof -
  have a: "senderStatus waiting_example \<noteq> TRANSFERRING" by code_simp
  have b: "step transferring_example TransferCompletedEvent \<noteq> transferring_example"
    by code_simp
  have c: "senderStatus (run (initial 1000) completing_trace) = TRANSFER_COMPLETE"
    by code_simp
  show ?thesis
    using a b c
      completed_accepted_only_when_transferring
        [of waiting_example transferring_example 1000 completing_trace]
    by blast
qed

section \<open>After a manual stop, notifications are discarded\<close>










section \<open>Progress payloads\<close>

lemma step_progress:
  "step s (TransferProgressEvent p) = render_effects s (transfer_progress_listener p s)"
  by (simp add: step_def)


lemma listener_three_parts:
  "length (split_on CHR '':'' str) = 3 \<Longrightarrow>
   transfer_progress_listener (StringPayload str) s =
     arm_progress_timeout (progress_data (split_on CHR '':'' str))
       (clear_progress_timeout
          (first_progress (progress_data (split_on CHR '':'' str))
             (s\<lparr> lastProgressRef := Some (progress_data (split_on CHR '':'' str)) \<rparr>)))"
  by (simp add: transfer_progress_listener_def Let_def)

lemma clear_progress_timeout_fields:
  "lastProgressRef (clear_progress_timeout s) = lastProgressRef s"
  "senderStatus (clear_progress_timeout s) = senderStatus s"
  "now (clear_progress_timeout s) = now s"
  "nextTimerId (clear_progress_timeout s) = nextTimerId s"
  "progressUpdateTimeout (clear_progress_timeout s) = progressUpdateTimeout s"
  by (simp_all add: clear_progress_timeout_def clearTimeout_def split: option.splits)

lemma arm_progress_timeout_fields:
  "lastProgressRef (arm_progress_timeout pd s) = lastProgressRef s"
  "senderStatus (arm_progress_timeout pd s) = senderStatus s"
  "now (arm_progress_timeout pd s) = now s"
  "nextTimerId (arm_progress_timeout pd s) = Suc (nextTimerId s)"
  "progressUpdateTimeout (arm_progress_timeout pd s) = Some (nextTimerId s)"
  "timers (arm_progress_timeout pd s) =
     timers s @ [\<lparr> due = now s + 100, handle = nextTimerId s, callback = SetTransferProgress pd \<rparr>]"
  by (simp_all add: arm_progress_timeout_def setTimeout_def)

lemma first_progress_fields:
  "lastProgressRef (first_progress pd s) = lastProgressRef s"
  "now (first_progress pd s) = now s"
  "nextTimerId (first_progress pd s) = nextTimerId s"
  "timers (first_progress pd s) = timers s"
  "progressUpdateTimeout (first_progress pd s) = progressUpdateTimeout s"
  by (simp_all add: first_progress_def)

lemma listener_lastProgressRef:
  "length (split_on CHR '':'' str) = 3 \<Longrightarrow>
   lastProgressRef (transfer_progress_listener (StringPayload str) s) =
     Some (progress_data (split_on CHR '':'' str))"
  by (simp add: listener_three_parts arm_progress_timeout_fields clear_progress_timeout_fields
      first_progress_fields)



text \<open>
  Claim C6, as the code has it. The listener drops a payload that is not a string (the
  call of \<^verbatim>\<open>split\<close> throws and the \<^verbatim>\<open>catch\<close> logs) and a string that does not split
  at the colons into exactly three parts: the state after the event equals the state
  before it. No progress payload whatever opens the alert dialog. The three parts
  themselves are not checked: see the counterexample.
\<close>

theorem unsplittable_payload_is_dropped:
  "((p = OtherPayload \<or> (\<exists>str. p = StringPayload str \<and> length (split_on CHR '':'' str) \<noteq> 3))
      \<longrightarrow> step s (TransferProgressEvent p) = s) \<and>
   alertDialog (step s (TransferProgressEvent q)) = alertDialog s"
proof
  show "(p = OtherPayload \<or> (\<exists>str. p = StringPayload str \<and> length (split_on CHR '':'' str) \<noteq> 3))
      \<longrightarrow> step s (TransferProgressEvent p) = s"
    by (auto simp: step_progress transfer_progress_listener_def render_effects_same)
next
  show "alertDialog (step s (TransferProgressEvent q)) = alertDialog s"
    by (cases q)
      (simp_all add: step_progress render_effects_fields transfer_progress_listener_def Let_def
        arm_progress_timeout_def setTimeout_def clear_progress_timeout_def clearTimeout_def
        first_progress_def split: option.splits)
qed

theorem unsplittable_payload_is_dropped_witness:
  "length (split_on CHR '':'' ''1024:2048'') \<noteq> 3 \<and>
   step waiting_example (TransferProgressEvent (StringPayload ''1024:2048'')) = waiting_example \<and>
   step waiting_example (TransferProgressEvent OtherPayload) = waiting_example"
proof -
  have a: "length (split_on CHR '':'' ''1024:2048'') \<noteq> 3" by simp
  show ?thesis
    using a
      unsplittable_payload_is_dropped [of "StringPayload ''1024:2048''" waiting_example]
      unsplittable_payload_is_dropped [of OtherPayload waiting_example]
    by simp
qed

text \<open>
  The payload \<^verbatim>\<open>a:b:c\<close> has three parts, none of them a number. It is not dropped: the
  latest-sample ref receives a sample of three \<^verbatim>\<open>NaN\<close>s, and 100 ms later that sample is
  the visible progress. The payload \<^verbatim>\<open>x:5:y\<close> even starts the transfer.
\<close>

theorem malformed_payload_counterexample:
  "split_on CHR '':'' ''a:b:c'' = [''a'', ''b'', ''c''] \<and>
   parseInt10 ''a'' = None \<and> parseInt10 ''b'' = None \<and> parseInt10 ''c'' = None \<and>
   lastProgressRef waiting_example = None \<and>
   lastProgressRef (step waiting_example (TransferProgressEvent (StringPayload ''a:b:c''))) =
     Some \<lparr> bytesTransferred = None, totalBytes = None, speedBps = None, percentage = Some 0 \<rparr> \<and>
   transferProgress waiting_example = None \<and>
   transferProgress
     (run waiting_example [TransferProgressEvent (StringPayload ''a:b:c''), Elapse 100]) =
     Some \<lparr> bytesTransferred = None, totalBytes = None, speedBps = None, percentage = Some 0 \<rparr> \<and>
   senderStatus waiting_example = WAITING_FOR_RECEIVER \<and>
   senderStatus (step waiting_example (TransferProgressEvent (StringPayload ''x:5:y''))) =
     TRANSFERRING"
  by code_simp

section \<open>The metadata of a terminal transition\<close>








section \<open>Returning to IDLE\<close>

text \<open>
  Claim C3, as the code has it. The three transitions into IDLE that \<^verbatim>\<open>stopSharing\<close>
  makes (the reset from TRANSFER_COMPLETE or TRANSFER_STOPPED, the end of a stop issued
  while waiting, and the callback of the decay timer that a manual stop arms) clear the
  ticket, the selected path and its type, the visible progress, the start time, the
  metadata and the manual-stop flag in that one step.
\<close>

theorem stop_sharing_resets_clear_everything:
  "((senderStatus s = TRANSFER_COMPLETE \<or> senderStatus s = TRANSFER_STOPPED) \<longrightarrow>
      cleared (step s StopSharing)) \<and>
   (0 < pendingStopWaiting s' \<longrightarrow> cleared (step s' StopWaitingResolved)) \<and>
   (callback t = StopDecay \<longrightarrow> cleared (fire s'' t))"
  by (auto simp: cleared_def step_def fire_def render_effects_fields stopSharing_def
      stop_waiting_continuation_def reset_to_idle_def Let_def)

theorem stop_sharing_resets_clear_everything_witness:
  "senderStatus stopped_example = TRANSFER_STOPPED \<and> ticket stopped_example \<noteq> None \<and>
   cleared (step stopped_example StopSharing) \<and>
   0 < pendingStopWaiting (step waiting_example StopSharing) \<and>
   cleared (step (step waiting_example StopSharing) StopWaitingResolved) \<and>
   callback (last (timers stopped_example)) = StopDecay \<and>
   cleared (fire stopped_example (last (timers stopped_example)))"
proof -
  have a: "senderStatus stopped_example = TRANSFER_STOPPED" by code_simp
  have b: "0 < pendingStopWaiting (step waiting_example StopSharing)" by code_simp
  have c: "callback (last (timers stopped_example)) = StopDecay" by code_simp
  have d: "ticket stopped_example \<noteq> None" by code_simp
  show ?thesis
    using a b c d
      stop_sharing_resets_clear_everything
        [of stopped_example "step waiting_example StopSharing" "last (timers stopped_example)"
          stopped_example]
    by simp
qed

text \<open>
  Two ways to be in IDLE with data present. After a failed notification the listener's
  own decay timer takes TRANSFER_STOPPED to IDLE and leaves the ticket and the selected
  path. And selecting a file stores the path while the status is still IDLE.
\<close>

theorem idle_without_clear_counterexample:
  "senderStatus (run (initial 1000) (butlast failed_decay_trace)) = TRANSFER_STOPPED \<and>
   senderStatus (run (initial 1000) failed_decay_trace) = IDLE \<and>
   ticket (run (initial 1000) failed_decay_trace) = Some ''abc123'' \<and>
   selectedPath (run (initial 1000) failed_decay_trace) = Some ''/tmp/a.bin'' \<and>
   senderStatus (step (initial 1000) (HandleFileSelect ''/tmp/a.bin'')) = IDLE \<and>
   selectedPath (step (initial 1000) (HandleFileSelect ''/tmp/a.bin'')) = Some ''/tmp/a.bin''"
  by code_simp

section \<open>The continuation of the completion listener\<close>




section \<open>The ticket\<close>

lemma fire_ticket:
  "ticket_present_while_sharing s \<Longrightarrow> ticket_present_while_sharing (fire s t)"
  by (cases "callback t")
    (simp_all add: ticket_present_while_sharing_def fire_def render_effects_fields
      reset_to_idle_def)

lemma foldl_fire_ticket:
  "ticket_present_while_sharing s \<Longrightarrow> ticket_present_while_sharing (foldl fire s ts)"
  by (induction ts arbitrary: s) (simp_all add: fire_ticket)

lemma elapse_ticket:
  assumes "ticket_present_while_sharing s"
  shows "ticket_present_while_sharing (elapse d s)"
proof -
  let ?T = "now s + int d"
  let ?s1 = "s\<lparr> timers := filter (\<lambda>t. \<not> due t \<le> ?T) (timers s) \<rparr>"
  let ?ready = "sort_key due (filter (\<lambda>t. due t \<le> ?T) (timers s))"
  from assms have "ticket_present_while_sharing ?s1"
    by (simp add: ticket_present_while_sharing_def)
  then have "ticket_present_while_sharing (foldl fire ?s1 ?ready)"
    by (rule foldl_fire_ticket)
  then show ?thesis
    by (simp add: elapse_def Let_def ticket_present_while_sharing_def)
qed

lemma handle_ticket:
  "ticket_present_while_sharing s \<Longrightarrow> ticket_present_while_sharing (handle_trigger ev s)"
  by (cases ev)
    (auto simp: ticket_present_while_sharing_def handler_defs helper_defs Let_def
      split: if_splits option.splits payload.splits sum.splits)

lemma step_ticket:
  assumes "ticket_present_while_sharing s"
  shows "ticket_present_while_sharing (step s ev)"
proof (cases "\<exists>d. ev = Elapse d")
  case True
  then show ?thesis using assms elapse_ticket by (auto simp: step_elapse)
next
  case False
  then have "step s ev = render_effects s (handle_trigger ev s)"
    by (simp add: step_handle)
  then show ?thesis using handle_ticket [OF assms, of ev]
    by (simp add: ticket_present_while_sharing_def render_effects_fields)
qed

lemma run_ticket:
  "ticket_present_while_sharing s \<Longrightarrow> ticket_present_while_sharing (run s evs)"
  by (induction evs arbitrary: s) (simp_all add: run_Nil run_Cons step_ticket)

text \<open>
  Claim C4, as the code has it. In every state reachable from the initial one, the
  ticket is present whenever the status is WAITING_FOR_RECEIVER or TRANSFERRING. The
  converse does not hold: neither of the two zero-delay timers that commit a terminal
  status, nor a manual stop during the transfer, touches the ticket, so it is still there
  in TRANSFER_COMPLETE and TRANSFER_STOPPED.
\<close>

theorem ticket_present_in_sharing_states:
  "((senderStatus (run (initial t0) evs) = WAITING_FOR_RECEIVER \<or>
     senderStatus (run (initial t0) evs) = TRANSFERRING) \<longrightarrow>
      ticket (run (initial t0) evs) \<noteq> None) \<and>
   (callback t = CommitComplete \<or> callback t = CommitStopped \<longrightarrow> ticket (fire s t) = ticket s) \<and>
   (senderStatus s' = TRANSFERRING \<longrightarrow> ticket (step s' StopSharing) = ticket s')"
proof (intro conjI)
  have "ticket_present_while_sharing (initial t0)"
    by (simp add: ticket_present_while_sharing_def initial_def)
  then have "ticket_present_while_sharing (run (initial t0) evs)"
    by (rule run_ticket)
  then show "(senderStatus (run (initial t0) evs) = WAITING_FOR_RECEIVER \<or>
     senderStatus (run (initial t0) evs) = TRANSFERRING) \<longrightarrow>
      ticket (run (initial t0) evs) \<noteq> None"
    by (simp add: ticket_present_while_sharing_def)
next
  show "callback t = CommitComplete \<or> callback t = CommitStopped \<longrightarrow> ticket (fire s t) = ticket s"
    by (auto simp: fire_def render_effects_fields)
next
  show "senderStatus s' = TRANSFERRING \<longrightarrow> ticket (step s' StopSharing) = ticket s'"
    by (simp add: step_def stopSharing_def render_effects_fields)
qed

theorem ticket_present_in_sharing_states_witness:
  "senderStatus (run (initial 1000) (take 5 completing_trace)) = TRANSFERRING \<and>
   ticket (run (initial 1000) (take 5 completing_trace)) \<noteq> None \<and>
   senderStatus transferring_example = TRANSFERRING \<and>
   ticket (step transferring_example StopSharing) = ticket transferring_example \<and>
   callback (last (timers (run (initial 1000) (butlast completing_trace)))) = CommitComplete \<and>
   ticket (fire (run (initial 1000) (butlast completing_trace))
      (last (timers (run (initial 1000) (butlast completing_trace))))) =
     ticket (run (initial 1000) (butlast completing_trace))"
proof -
  let ?r = "run (initial 1000) (butlast completing_trace)"
  have a: "senderStatus (run (initial 1000) (take 5 completing_trace)) = TRANSFERRING"
    by code_simp
  have b: "senderStatus transferring_example = TRANSFERRING" by code_simp
  have c: "callback (last (timers ?r)) = CommitComplete" by code_simp
  show ?thesis
    using a b c
      ticket_present_in_sharing_states
        [of 1000 "take 5 completing_trace" "last (timers ?r)" ?r transferring_example]
    by simp
qed

text \<open>The ticket is present after a completed transfer and after a manual stop.\<close>

theorem ticket_after_terminal_transition_counterexample:
  "senderStatus (run (initial 1000) completing_trace) = TRANSFER_COMPLETE \<and>
   ticket (run (initial 1000) completing_trace) = Some ''abc123'' \<and>
   senderStatus stopped_example = TRANSFER_STOPPED \<and>
   ticket stopped_example = Some ''abc123''"
  by code_simp

section \<open>The timer table stays well formed\<close>

lemma timers_ok_iff:
  "timers_ok s =
     ((\<forall>t \<in> set (timers s). handle t < nextTimerId s) \<and>
      distinct (map handle (timers s)) \<and>
      (\<forall>h. progressUpdateTimeout s = Some h \<longrightarrow> h < nextTimerId s) \<and>
      (\<forall>t \<in> set (timers s).
         is_progress (callback t) = (progressUpdateTimeout s = Some (handle t))))"
  by (simp add: timers_ok_def split: option.splits)

lemma timers_ok_cong:
  "timers s' = timers s \<Longrightarrow> nextTimerId s' = nextTimerId s \<Longrightarrow>
   progressUpdateTimeout s' = progressUpdateTimeout s \<Longrightarrow> timers_ok s' = timers_ok s"
  by (simp add: timers_ok_iff)

lemma timers_ok_filter:
  "timers_ok s \<Longrightarrow> timers_ok (s\<lparr> timers := filter P (timers s) \<rparr>)"
  by (auto simp: timers_ok_iff distinct_map_filter)

lemma timers_ok_setTimeout:
  "timers_ok s \<Longrightarrow> \<not> is_progress cb \<Longrightarrow> timers_ok (setTimeout cb delay s)"
  by (auto simp: timers_ok_iff setTimeout_def)

lemma timers_ok_clear:
  "timers_ok s \<Longrightarrow> timers_ok (clear_progress_timeout s)"
  by (auto simp: clear_progress_timeout_def clearTimeout_def timers_ok_iff distinct_map_filter
      split: option.splits)

lemma clear_no_progress:
  "timers_ok s \<Longrightarrow> t \<in> set (timers (clear_progress_timeout s)) \<Longrightarrow> \<not> is_progress (callback t)"
  by (auto simp: clear_progress_timeout_def clearTimeout_def timers_ok_iff split: option.splits)


lemma timers_ok_arm:
  "timers_ok s \<Longrightarrow> \<forall>t \<in> set (timers s). \<not> is_progress (callback t) \<Longrightarrow>
   timers_ok (arm_progress_timeout pd s)"
  by (auto simp: timers_ok_iff arm_progress_timeout_def setTimeout_def)

lemma timers_ok_listener:
  assumes "timers_ok s"
  shows "timers_ok (transfer_progress_listener p s)"
proof (cases p)
  case OtherPayload
  then show ?thesis using assms by (simp add: transfer_progress_listener_def)
next
  case (StringPayload str)
  show ?thesis
  proof (cases "length (split_on CHR '':'' str) = 3")
    case False
    then show ?thesis using assms StringPayload by (simp add: transfer_progress_listener_def)
  next
    case True
    let ?pd = "progress_data (split_on CHR '':'' str)"
    let ?s1 = "first_progress ?pd (s\<lparr> lastProgressRef := Some ?pd \<rparr>)"
    have "timers_ok ?s1 = timers_ok s"
      by (rule timers_ok_cong) (simp_all add: first_progress_fields)
    with assms have "timers_ok ?s1" by simp
    then have "timers_ok (arm_progress_timeout ?pd (clear_progress_timeout ?s1))"
      by (intro timers_ok_arm timers_ok_clear ballI clear_no_progress)
    then show ?thesis using StringPayload True by (simp add: listener_three_parts)
  qed
qed


lemma timers_ok_updates:
  "timers_ok (s\<lparr> transferProgress := a \<rparr>) = timers_ok s"
  "timers_ok (s\<lparr> transferMetadata := b \<rparr>) = timers_ok s"
  "timers_ok (s\<lparr> pendingGetFileSize := c \<rparr>) = timers_ok s"
  "timers_ok (s\<lparr> pendingStopTransferring := d \<rparr>) = timers_ok s"
  "timers_ok (s\<lparr> pendingStopWaiting := e \<rparr>) = timers_ok s"
  "timers_ok (s\<lparr> pendingStartSharing := f \<rparr>) = timers_ok s"
  "timers_ok (s\<lparr> pendingCheckPathType := g \<rparr>) = timers_ok s"
  "timers_ok (s\<lparr> wasManuallyStoppedRef := h \<rparr>) = timers_ok s"
  "timers_ok (showAlert x y z s) = timers_ok s"
  "timers_ok (reset_to_idle s) = timers_ok s"
  by (simp_all add: timers_ok_iff showAlert_def reset_to_idle_def)

lemma timers_ok_commit_complete:
  "timers_ok s \<Longrightarrow> timers_ok (commit_complete m s)"
  unfolding commit_complete_def
  by (rule timers_ok_setTimeout) (simp_all add: timers_ok_updates)

lemma timers_ok_completed:
  assumes "timers_ok s"
  shows "timers_ok (transfer_completed_listener s)"
proof -
  let ?c = "(clear_progress_timeout s)\<lparr> transferProgress := None \<rparr>"
  have c: "timers_ok ?c"
    using timers_ok_clear [OF assms] by (simp add: timers_ok_updates)
  show ?thesis
    using assms c timers_ok_commit_complete [OF c]
    by (simp add: transfer_completed_listener_def Let_def timers_ok_updates)
qed

lemma timers_ok_failed:
  assumes "timers_ok s"
  shows "timers_ok (transfer_failed_listener s)"
proof -
  let ?c = "(clear_progress_timeout s)\<lparr> transferProgress := None \<rparr>"
  have c: "timers_ok ?c"
    using timers_ok_clear [OF assms] by (simp add: timers_ok_updates)
  have "timers_ok (setTimeout FailedDecay 2000
      (setTimeout CommitStopped 0 (?c\<lparr> transferMetadata := Some m \<rparr>)))" for m
    using c by (intro timers_ok_setTimeout) (simp_all add: timers_ok_updates)
  then show ?thesis using assms
    by (simp add: transfer_failed_listener_def Let_def)
qed

lemma timers_ok_get_file_size:
  assumes "timers_ok s"
  shows "timers_ok (get_file_size_continuation i r s)"
proof -
  have "timers_ok (commit_complete m (s\<lparr> pendingGetFileSize := x \<rparr>))" for m x
    by (rule timers_ok_commit_complete) (simp add: timers_ok_updates assms)
  then show ?thesis using assms
    by (simp add: get_file_size_continuation_def Let_def)
qed

lemma timers_ok_stop_transferring:
  assumes "timers_ok s"
  shows "timers_ok (stop_transferring_continuation r s)"
proof -
  have "timers_ok (setTimeout StopDecay 2000 (s\<lparr> pendingStopTransferring := x \<rparr>))" for x
    by (rule timers_ok_setTimeout) (simp_all add: timers_ok_updates assms)
  then show ?thesis using assms
    by (simp add: stop_transferring_continuation_def Let_def timers_ok_updates
        split: option.splits)
qed

lemma timers_ok_other_commands:
  assumes "timers_ok s"
  shows "timers_ok (handleFileSelect path s)"
    and "timers_ok (check_path_type_continuation r s)"
    and "timers_ok (startSharing s)"
    and "timers_ok (start_sharing_continuation r' s)"
    and "timers_ok (stopSharing s)"
    and "timers_ok (stop_waiting_continuation r'' s)"
  using assms
  by (simp_all add: timers_ok_iff handleFileSelect_def check_path_type_continuation_def
      startSharing_def start_sharing_continuation_def stopSharing_def
      stop_waiting_continuation_def showAlert_def reset_to_idle_def Let_def
      split: option.splits sum.splits)

lemma timers_ok_handle:
  assumes "timers_ok s"
  shows "timers_ok (handle_trigger ev s)"
  using assms
  by (cases ev)
    (simp_all add: timers_ok_listener timers_ok_completed timers_ok_failed
      timers_ok_get_file_size timers_ok_stop_transferring timers_ok_other_commands)

lemma fire_timer_fields:
  "timers (fire s t) = timers s"
  "nextTimerId (fire s t) = nextTimerId s"
  "progressUpdateTimeout (fire s t) = progressUpdateTimeout s"
  "now (fire s t) = now s"
  by (cases "callback t"; simp add: fire_def render_effects_fields reset_to_idle_def)+

lemma foldl_fire_timer_fields:
  "timers (foldl fire s ts) = timers s"
  "nextTimerId (foldl fire s ts) = nextTimerId s"
  "progressUpdateTimeout (foldl fire s ts) = progressUpdateTimeout s"
  "now (foldl fire s ts) = now s"
  by (induction ts arbitrary: s; simp add: fire_timer_fields)+

lemma elapse_timer_fields:
  "timers (elapse d s) = filter (\<lambda>t. \<not> due t \<le> now s + int d) (timers s)"
  "nextTimerId (elapse d s) = nextTimerId s"
  "progressUpdateTimeout (elapse d s) = progressUpdateTimeout s"
  "now (elapse d s) = now s + int d"
  by (simp_all add: elapse_def Let_def foldl_fire_timer_fields)

lemma timers_ok_elapse: "timers_ok s \<Longrightarrow> timers_ok (elapse d s)"
  by (auto simp: timers_ok_iff elapse_timer_fields distinct_map_filter)

lemma timers_ok_step:
  assumes "timers_ok s"
  shows "timers_ok (step s ev)"
proof (cases "\<exists>d. ev = Elapse d")
  case True
  with assms show ?thesis by (auto simp: step_elapse timers_ok_elapse)
next
  case False
  then have "step s ev = render_effects s (handle_trigger ev s)"
    by (simp add: step_handle)
  moreover have "timers_ok (render_effects s (handle_trigger ev s)) =
      timers_ok (handle_trigger ev s)"
    by (rule timers_ok_cong) (simp_all add: render_effects_fields)
  ultimately show ?thesis
    using timers_ok_handle [OF assms, of ev] by simp
qed

lemma timers_ok_run: "timers_ok s \<Longrightarrow> timers_ok (run s evs)"
  by (induction evs arbitrary: s) (simp_all add: run_Nil run_Cons timers_ok_step)

lemma timers_ok_initial: "timers_ok (initial t0)"
  by (simp add: timers_ok_iff initial_def)

section \<open>Timers and resets\<close>












section \<open>Coalescing of progress samples\<close>

lemma insort_key_snoc:
  "f x \<le> f t \<Longrightarrow> insort_key f x (ys @ [t]) = insort_key f x ys @ [t]"
  by (induction ys) simp_all

lemma sort_key_snoc:
  "\<forall>x \<in> set xs. f x \<le> f t \<Longrightarrow> sort_key f (xs @ [t]) = sort_key f xs @ [t]"
  by (induction xs) (simp_all add: insort_key_snoc)

lemma fire_progress:
  "transferProgress (fire s \<lparr> due = a, handle = h, callback = SetTransferProgress pd \<rparr>) = Some pd"
  by (simp add: fire_def render_effects_fields)

lemma elapse_last_progress:
  assumes "timers s = ts @ [\<lparr> due = T, handle = h, callback = SetTransferProgress pd \<rparr>]"
    and "T = now s + int d"
  shows "transferProgress (elapse d s) = Some pd"
proof -
  let ?tp = "\<lparr> due = T, handle = h, callback = SetTransferProgress pd \<rparr>"
  let ?s1 = "s\<lparr> timers := filter (\<lambda>t. \<not> due t \<le> T) (timers s) \<rparr>"
  let ?ys = "filter (\<lambda>t. due t \<le> T) ts"
  have "sort_key due (filter (\<lambda>t. due t \<le> T) (timers s)) = sort_key due (?ys @ [?tp])"
    by (simp add: assms(1))
  also have "\<dots> = sort_key due ?ys @ [?tp]"
    by (rule sort_key_snoc) simp
  finally have "foldl fire ?s1 (sort_key due (filter (\<lambda>t. due t \<le> T) (timers s))) =
      fire (foldl fire ?s1 (sort_key due ?ys)) ?tp"
    by simp
  then show ?thesis
    by (simp add: elapse_def Let_def assms(2) [symmetric] fire_progress)
qed

lemma listener_timers:
  assumes "timers_ok s" and "length (split_on CHR '':'' str) = 3"
  shows "\<exists>ts. timers (transfer_progress_listener (StringPayload str) s) =
           ts @ [\<lparr> due = now s + 100, handle = nextTimerId s,
                   callback = SetTransferProgress (progress_data (split_on CHR '':'' str)) \<rparr>]
         \<and> (\<forall>t \<in> set ts. \<not> is_progress (callback t))"
proof -
  let ?pd = "progress_data (split_on CHR '':'' str)"
  let ?s1 = "first_progress ?pd (s\<lparr> lastProgressRef := Some ?pd \<rparr>)"
  have "timers_ok ?s1 = timers_ok s"
    by (rule timers_ok_cong) (simp_all add: first_progress_fields)
  with assms have ok: "timers_ok ?s1" by simp
  have "timers (transfer_progress_listener (StringPayload str) s) =
      timers (clear_progress_timeout ?s1) @
        [\<lparr> due = now s + 100, handle = nextTimerId s, callback = SetTransferProgress ?pd \<rparr>]"
    by (simp add: listener_three_parts [OF assms(2)] arm_progress_timeout_fields
        clear_progress_timeout_fields first_progress_fields)
  moreover have "\<forall>t \<in> set (timers (clear_progress_timeout ?s1)). \<not> is_progress (callback t)"
    using clear_no_progress [OF ok] by blast
  ultimately show ?thesis by blast
qed

lemma listener_now:
  "now (transfer_progress_listener p s) = now s"
  "nextTimerId (transfer_progress_listener (StringPayload str) s) =
     (if length (split_on CHR '':'' str) = 3 then Suc (nextTimerId s) else nextTimerId s)"
  by (cases p)
    (simp_all add: transfer_progress_listener_def Let_def arm_progress_timeout_fields
      clear_progress_timeout_fields first_progress_fields)

lemma filter_none:
  "\<forall>t \<in> set ts. \<not> P t \<Longrightarrow> filter P ts = []"
  by (induction ts) simp_all

lemma filter_same_handle:
  "distinct (map f xs) \<Longrightarrow> \<forall>x \<in> set xs. P x \<longrightarrow> f x = h \<Longrightarrow> length (filter P xs) \<le> 1"
proof (induction xs)
  case Nil
  show ?case by simp
next
  case (Cons x xs)
  show ?case
  proof (cases "P x")
    case False
    with Cons show ?thesis by simp
  next
    case True
    have "\<not> P y" if "y \<in> set xs" for y
    proof
      assume "P y"
      with that Cons.prems(2) True have "f y = f x" by simp
      with that have "f x \<in> f ` set xs" by (metis imageI)
      with Cons.prems(1) show False by simp
    qed
    then have "\<forall>y \<in> set xs. \<not> P y" by blast
    then have "filter P xs = []" by (rule filter_none)
    with True show ?thesis by simp
  qed
qed

lemma at_most_one_pending_progress:
  assumes "timers_ok s"
  shows "length (filter (\<lambda>t. is_progress (callback t)) (timers s)) \<le> 1"
proof (cases "progressUpdateTimeout s")
  case None
  with assms have "\<forall>t \<in> set (timers s). \<not> is_progress (callback t)"
    by (simp add: timers_ok_iff)
  then show ?thesis by (simp add: filter_none)
next
  case (Some h)
  with assms show ?thesis
    by (intro filter_same_handle [where f = handle and h = h]) (auto simp: timers_ok_iff)
qed

text \<open>
  Claim C10. Let two samples be processed with less than 100 ms between them, in a
  well-formed timer table. The listener writes each sample to the latest-sample ref at
  once. When the second arrives, the timer of the first is still pending and is the only
  progress timer; after the second, the only progress timer is the one that carries the
  second sample, due 100 ms later; and when those 100 ms have passed the visible progress
  is the second sample. In every reachable state at most one progress timer is pending.
\<close>

theorem later_sample_supersedes_pending_one:
  assumes "timers_ok s"
    and "length (split_on CHR '':'' str1) = 3"
    and "length (split_on CHR '':'' str2) = 3"
    and "d < 100"
  shows "(let pd1 = progress_data (split_on CHR '':'' str1);
              pd2 = progress_data (split_on CHR '':'' str2);
              s1 = step (step s (TransferProgressEvent (StringPayload str1))) (Elapse d);
              s2 = step s1 (TransferProgressEvent (StringPayload str2))
          in lastProgressRef (transfer_progress_listener (StringPayload str1) s) = Some pd1 \<and>
             lastProgressRef (transfer_progress_listener (StringPayload str2) s1) = Some pd2 \<and>
             filter (\<lambda>t. is_progress (callback t)) (timers s1) =
               [\<lparr> due = now s + 100, handle = nextTimerId s, callback = SetTransferProgress pd1 \<rparr>] \<and>
             filter (\<lambda>t. is_progress (callback t)) (timers s2) =
               [\<lparr> due = now s1 + 100, handle = nextTimerId s1, callback = SetTransferProgress pd2 \<rparr>] \<and>
             transferProgress (step s2 (Elapse 100)) = Some pd2) \<and>
         length (filter (\<lambda>t. is_progress (callback t)) (timers (run (initial t0) evs))) \<le> 1"
proof -
  let ?pd1 = "progress_data (split_on CHR '':'' str1)"
  let ?pd2 = "progress_data (split_on CHR '':'' str2)"
  let ?s0 = "step s (TransferProgressEvent (StringPayload str1))"
  let ?s1 = "step ?s0 (Elapse d)"
  let ?s2 = "step ?s1 (TransferProgressEvent (StringPayload str2))"
  let ?t1 = "\<lparr> due = now s + 100, handle = nextTimerId s, callback = SetTransferProgress ?pd1 \<rparr>"
  let ?t2 = "\<lparr> due = now ?s1 + 100, handle = nextTimerId ?s1, callback = SetTransferProgress ?pd2 \<rparr>"
  have ok1: "timers_ok ?s1" using assms(1) by (intro timers_ok_step)
  obtain ts where ts: "timers ?s0 = ts @ [?t1]" "\<forall>t \<in> set ts. \<not> is_progress (callback t)"
    using listener_timers [OF assms(1,2)] by (auto simp: step_progress render_effects_fields)
  have now0: "now ?s0 = now s"
    by (simp add: step_progress render_effects_fields listener_now)
  have a: "lastProgressRef (transfer_progress_listener (StringPayload str1) s) = Some ?pd1"
    using assms(2) by (rule listener_lastProgressRef)
  have b: "lastProgressRef (transfer_progress_listener (StringPayload str2) ?s1) = Some ?pd2"
    using assms(3) by (rule listener_lastProgressRef)
  have c: "filter (\<lambda>t. is_progress (callback t)) (timers ?s1) = [?t1]"
    using ts assms(4)
    by (simp add: step_elapse elapse_timer_fields now0 filter_none)
  obtain us where us: "timers ?s2 = us @ [?t2]" "\<forall>t \<in> set us. \<not> is_progress (callback t)"
    using listener_timers [OF ok1 assms(3)] by (auto simp: step_progress render_effects_fields)
  have d: "filter (\<lambda>t. is_progress (callback t)) (timers ?s2) = [?t2]"
    using us by (simp add: filter_none)
  have now2: "now ?s2 = now ?s1"
    by (simp add: step_progress render_effects_fields listener_now)
  have "transferProgress (elapse 100 ?s2) = Some ?pd2"
    by (rule elapse_last_progress [OF us(1)]) (simp add: now2)
  then have e: "transferProgress (step ?s2 (Elapse 100)) = Some ?pd2"
    by (simp only: step_elapse)
  have f: "length (filter (\<lambda>t. is_progress (callback t)) (timers (run (initial t0) evs))) \<le> 1"
    by (intro at_most_one_pending_progress timers_ok_run timers_ok_initial)
  show ?thesis
    unfolding Let_def using a b c d e f by blast
qed

theorem later_sample_supersedes_pending_one_witness:
  "timers_ok waiting_example \<and>
   length (split_on CHR '':'' ''100:1000:0'') = 3 \<and>
   length (split_on CHR '':'' ''50:1000:0'') = 3 \<and>
   (40::nat) < 100 \<and>
   progress_data (split_on CHR '':'' ''50:1000:0'') =
     \<lparr> bytesTransferred = Some 50, totalBytes = Some 1000, speedBps = Some 0,
       percentage = Some 5 \<rparr> \<and>
   transferProgress
     (step (step (step (step waiting_example
        (TransferProgressEvent (StringPayload ''100:1000:0''))) (Elapse 40))
        (TransferProgressEvent (StringPayload ''50:1000:0''))) (Elapse 100)) =
     Some (progress_data (split_on CHR '':'' ''50:1000:0''))"
proof -
  have a: "timers_ok waiting_example" by code_simp
  have b: "length (split_on CHR '':'' ''100:1000:0'') = 3" by simp
  have c: "length (split_on CHR '':'' ''50:1000:0'') = 3" by simp
  have d: "(40::nat) < 100" by simp
  have e: "progress_data (split_on CHR '':'' ''50:1000:0'') =
     \<lparr> bytesTransferred = Some 50, totalBytes = Some 1000, speedBps = Some 0,
       percentage = Some 5 \<rparr>"
    by code_simp
  show ?thesis
    using a b c d e later_sample_supersedes_pending_one [OF a b c d, unfolded Let_def]
    by blast
qed

end
